theory Spec2Isabelle
  imports Main
begin

section \<open>JavaScript primitives used by the plugin\<close>

text \<open>
  Strings are \<open>string\<close>. \<open>startsWith\<close>, \<open>indexOf\<close>, \<open>slice\<close>, \<open>includes\<close>
  (here \<open>array_includes\<close>) and \<open>join\<close> follow the ECMAScript definitions,
  including the negative indices of \<open>slice\<close> that \<open>parsePlatform\<close> runs into
  when the target holds no colon.
\<close>

definition startsWith :: "string \<Rightarrow> string \<Rightarrow> bool" where
  "startsWith s p = (take (length p) s = p)"

definition indexOf :: "string \<Rightarrow> char \<Rightarrow> int" where
  "indexOf s c = (if c \<in> set s then int (length (takeWhile (\<lambda>x. x \<noteq> c) s)) else - 1)"

definition relIndex :: "nat \<Rightarrow> int \<Rightarrow> nat" where
  "relIndex len i = (if i < 0 then nat (max (int len + i) 0) else min (nat i) len)"

definition slice :: "string \<Rightarrow> int \<Rightarrow> int \<Rightarrow> string" where
  "slice s b e =
     (let from = relIndex (length s) b; to = relIndex (length s) e
      in take (to - from) (drop from s))"

definition sliceFrom :: "string \<Rightarrow> int \<Rightarrow> string" where
  "sliceFrom s b = slice s b (int (length s))"

definition array_includes :: "'a list \<Rightarrow> 'a \<Rightarrow> bool" where
  "array_includes xs x = (x \<in> set xs)"

fun join :: "string \<Rightarrow> string list \<Rightarrow> string" where
  "join sep [] = []"
| "join sep [x] = x"
| "join sep (x # y # ys) = x @ sep @ join sep (y # ys)"

text \<open>
  A JavaScript \<open>Set\<close> of strings keeps its members in insertion order without
  repetition: \<open>add\<close> appends a value that is not yet a member, \<open>delete\<close> removes
  it, \<open>new Set(xs)\<close> adds the elements of \<open>xs\<close> in turn and \<open>[...s]\<close> reads the
  members back in order.
\<close>

type_synonym jsset = "string list"

definition set_add :: "string \<Rightarrow> jsset \<Rightarrow> jsset" where
  "set_add x s = (if x \<in> set s then s else s @ [x])"

definition set_delete :: "string \<Rightarrow> jsset \<Rightarrow> jsset" where
  "set_delete x s = filter (\<lambda>y. y \<noteq> x) s"

definition newSet :: "string list \<Rightarrow> jsset" where
  "newSet xs = fold set_add xs []"

definition spread :: "jsset \<Rightarrow> string list" where
  "spread s = s"

section \<open>The host services\<close>

text \<open>
  The datastore and the permission registry belong to the host framework, not to the
  plugin. They are modelled by the tables the plugin reads and writes. A user row
  carries the platform binding it was found by, so \<open>getUser\<close> is a lookup by
  (platform, platform id) and \<open>database.set('user', id, ...)\<close> patches every row
  of that user id. \<open>get\<close>, \<open>set\<close> and \<open>remove\<close> on the \<open>permissions\<close> table act on
  all rows whose name matches the query; \<open>create\<close> appends a row with the next
  auto-increment id and the default empty permission list.

  The registry is a table of definitions. \<open>define\<close> adds one and hands back a
  disposer; the disposer is modelled by the handle of the definition it removes, and
  \<open>list\<close> returns the names of the table. The plugin's own \<open>disposables\<close>
  dictionary is part of the state: the field holds the keys the plugin has stored
  (its own properties); what a lookup finds beyond them is modelled with
  \<open>call_disposable\<close> below. A call to the datastore always returns: the source does
  not handle its failures either.
\<close>

record user_row =
  user_id :: nat
  user_platform :: string
  user_pid :: string
  user_permissions :: "string list"

record channel_row =
  channel_platform :: string
  channel_id :: string
  channel_permissions :: "string list"

record group_row =
  group_id :: nat
  group_name :: string
  group_permissions :: "string list"

record definition_row =
  def_handle :: nat
  def_name :: string
  def_inherits :: "string list"

record state =
  users :: "user_row list"
  channels :: "channel_row list"
  groups :: "group_row list"
  registry :: "definition_row list"
  next_handle :: nat
  disposables :: "string \<rightharpoonup> nat"

definition autoInc :: "nat list \<Rightarrow> nat" where
  "autoInc ids = Suc (fold max ids 0)"

definition getUser :: "state \<Rightarrow> string \<times> string \<Rightarrow> user_row option" where
  "getUser s key =
     find (\<lambda>u. user_platform u = fst key \<and> user_pid u = snd key) (users s)"

definition createUser :: "state \<Rightarrow> string \<times> string \<Rightarrow> user_row \<times> state" where
  "createUser s key =
     (let u = \<lparr>user_id = autoInc (map user_id (users s)), user_platform = fst key,
                user_pid = snd key, user_permissions = []\<rparr>
      in (u, s\<lparr>users := users s @ [u]\<rparr>))"

definition set_user :: "state \<Rightarrow> nat \<Rightarrow> string list \<Rightarrow> state" where
  "set_user s i ps =
     s\<lparr>users := map (\<lambda>u. if user_id u = i then u\<lparr>user_permissions := ps\<rparr> else u) (users s)\<rparr>"

definition getChannel :: "state \<Rightarrow> string \<times> string \<Rightarrow> channel_row option" where
  "getChannel s key =
     find (\<lambda>c. channel_platform c = fst key \<and> channel_id c = snd key) (channels s)"

definition createChannel :: "state \<Rightarrow> string \<times> string \<Rightarrow> channel_row \<times> state" where
  "createChannel s key =
     (let c = \<lparr>channel_platform = fst key, channel_id = snd key, channel_permissions = []\<rparr>
      in (c, s\<lparr>channels := channels s @ [c]\<rparr>))"

definition set_channel :: "state \<Rightarrow> string \<times> string \<Rightarrow> string list \<Rightarrow> state" where
  "set_channel s key ps =
     s\<lparr>channels := map (\<lambda>c. if channel_platform c = fst key \<and> channel_id c = snd key
                              then c\<lparr>channel_permissions := ps\<rparr> else c) (channels s)\<rparr>"

definition get_permissions :: "state \<Rightarrow> string \<Rightarrow> group_row list" where
  "get_permissions s name = filter (\<lambda>g. group_name g = name) (groups s)"

definition create_permissions :: "state \<Rightarrow> string \<Rightarrow> group_row \<times> state" where
  "create_permissions s name =
     (let g = \<lparr>group_id = autoInc (map group_id (groups s)), group_name = name,
                group_permissions = []\<rparr>
      in (g, s\<lparr>groups := groups s @ [g]\<rparr>))"

definition set_permissions :: "state \<Rightarrow> string \<Rightarrow> string list \<Rightarrow> state" where
  "set_permissions s name ps =
     s\<lparr>groups := map (\<lambda>g. if group_name g = name then g\<lparr>group_permissions := ps\<rparr> else g)
                      (groups s)\<rparr>"

definition remove_permissions :: "state \<Rightarrow> string \<Rightarrow> state" where
  "remove_permissions s name = s\<lparr>groups := filter (\<lambda>g. group_name g \<noteq> name) (groups s)\<rparr>"

definition permissions_list :: "state \<Rightarrow> string list" where
  "permissions_list s = map def_name (registry s)"

definition permissions_define :: "state \<Rightarrow> string \<Rightarrow> string list \<Rightarrow> nat \<times> state" where
  "permissions_define s name inherits =
     (next_handle s,
      s\<lparr>registry := registry s @ [\<lparr>def_handle = next_handle s, def_name = name,
                                    def_inherits = inherits\<rparr>],
        next_handle := Suc (next_handle s)\<rparr>)"

definition dispose :: "state \<Rightarrow> nat \<Rightarrow> state" where
  "dispose s h = s\<lparr>registry := filter (\<lambda>d. def_handle d \<noteq> h) (registry s)\<rparr>"

section \<open>The plugin\<close>

definition parsePlatform :: "string \<Rightarrow> string \<times> string" where
  "parsePlatform target =
     (let index = indexOf target CHR '':''
      in (slice target 0 index, sliceFrom target (index + 1)))"

text \<open>
  A call either returns or raises; what it wrote before raising stays written, so both
  come with the state they leave behind.
\<close>

datatype error = TypeError

datatype 'a outcome = Returned 'a | Raised error

text \<open>
  \<open>this.disposables[name]?.()\<close>. The dictionary is a plain object (\<open>= {}\<close>), so a key
  that is not stored is still found when \<open>Object.prototype\<close> has a property of that
  name, and \<open>?.()\<close> only skips the call for \<open>undefined\<close>:
  \<^item> \<open>__proto__\<close> is never a stored key (an assignment to it goes to the inherited
    setter); the lookup gives the prototype object, which is not callable, and the
    call raises \<open>TypeError\<close>;
  \<^item> \<open>__defineGetter__\<close> and \<open>__defineSetter__\<close>, called without a function
    argument, raise \<open>TypeError\<close>;
  \<^item> \<open>toLocaleString\<close> calls \<open>this.toString()\<close>, which is the disposer stored
    under \<open>toString\<close> when there is one;
  \<^item> the other inherited methods (\<open>constructor\<close>, \<open>hasOwnProperty\<close>,
    \<open>isPrototypeOf\<close>, \<open>propertyIsEnumerable\<close>, \<open>toString\<close>, \<open>valueOf\<close>,
    \<open>__lookupGetter__\<close>, \<open>__lookupSetter__\<close>) return without an effect.
\<close>

definition object_prototype_keys :: "string list" where
  "object_prototype_keys =
     [''constructor'', ''hasOwnProperty'', ''isPrototypeOf'', ''propertyIsEnumerable'',
      ''toLocaleString'', ''toString'', ''valueOf'', ''__proto__'', ''__defineGetter__'',
      ''__defineSetter__'', ''__lookupGetter__'', ''__lookupSetter__'']"

definition call_inherited :: "state \<Rightarrow> string \<Rightarrow> unit outcome \<times> state" where
  "call_inherited s name =
     (if name = ''__defineGetter__'' \<or> name = ''__defineSetter__'' then (Raised TypeError, s)
      else if name = ''toLocaleString'' then
        (case disposables s ''toString'' of
           None \<Rightarrow> (Returned (), s)
         | Some h \<Rightarrow> (Returned (), dispose s h))
      else (Returned (), s))"

definition call_disposable :: "state \<Rightarrow> string \<Rightarrow> unit outcome \<times> state" where
  "call_disposable s name =
     (if name = ''__proto__'' then (Raised TypeError, s)
      else (case disposables s name of
              Some h \<Rightarrow> (Returned (), dispose s h)
            | None \<Rightarrow>
                if name \<in> set object_prototype_keys then call_inherited s name
                else (Returned (), s)))"

text \<open>
  \<open>#updateGroup(name, permissions?)\<close>. An array is never falsy, so the lookup of the
  first branch only runs when the argument is left out.
\<close>

definition updateGroup :: "state \<Rightarrow> string \<Rightarrow> string list option \<Rightarrow> unit outcome \<times> state" where
  "updateGroup s name permissions =
     (let permissions' =
        (case permissions of
           Some ps \<Rightarrow> Some ps
         | None \<Rightarrow> (case get_permissions s name of [] \<Rightarrow> None
                    | g # _ \<Rightarrow> Some (group_permissions g)))
      in case permissions' of
           None \<Rightarrow> (Returned (), s)
         | Some ps \<Rightarrow>
             (case call_disposable s name of
                (Raised e, s1) \<Rightarrow> (Raised e, s1)
              | (Returned _, s1) \<Rightarrow>
                  (let (h, s2) = permissions_define s1 name ps
                   in (Returned (), s2\<lparr>disposables := (disposables s2)(name \<mapsto> h)\<rparr>))))"

definition deleteGroup :: "state \<Rightarrow> string \<Rightarrow> unit outcome \<times> state" where
  "deleteGroup s name =
     (let s1 = remove_permissions s name
      in case call_disposable s1 name of
           (Raised e, s2) \<Rightarrow> (Raised e, s2)
         | (Returned _, s2) \<Rightarrow>
             (Returned (), s2\<lparr>disposables := (disposables s2)(name := None)\<rparr>))"

text \<open>
  The three branches of \<open>modifyPermission\<close> build the same set: the stored list,
  then every name of \<open>set\<close> added, then every name of \<open>unset\<close> deleted.
\<close>

definition edit_permissions :: "string list \<Rightarrow> string list \<Rightarrow> string list \<Rightarrow> jsset" where
  "edit_permissions stored set_list unset_list =
     fold set_delete unset_list (fold set_add set_list (newSet stored))"

definition listPermission :: "state \<Rightarrow> string \<Rightarrow> string list option" where
  "listPermission s target =
     (if target = [] then None
      else if startsWith target ''@'' then
        map_option user_permissions (getUser s (parsePlatform (sliceFrom target 1)))
      else if startsWith target ''#'' then
        map_option channel_permissions (getChannel s (parsePlatform (sliceFrom target 1)))
      else
        (case get_permissions s target of [] \<Rightarrow> None | g # _ \<Rightarrow> Some (group_permissions g)))"

definition modifyPermission ::
  "state \<Rightarrow> string \<Rightarrow> string list \<Rightarrow> string list \<Rightarrow> bool outcome \<times> state" where
  "modifyPermission s target set_list unset_list =
     (if target = [] then (Returned False, s)
      else if startsWith target ''@'' then
        (let key = parsePlatform (sliceFrom target 1);
             (user, s1) = (case getUser s key of Some u \<Rightarrow> (u, s) | None \<Rightarrow> createUser s key);
             permissions = edit_permissions (user_permissions user) set_list unset_list
         in (Returned True, set_user s1 (user_id user) (spread permissions)))
      else if startsWith target ''#'' then
        (let key = parsePlatform (sliceFrom target 1);
             (channel, s1) =
               (case getChannel s key of Some c \<Rightarrow> (c, s) | None \<Rightarrow> createChannel s key);
             permissions = edit_permissions (channel_permissions channel) set_list unset_list
         in (Returned True, set_channel s1 (channel_platform channel, channel_id channel)
                              (spread permissions)))
      else
        (let (group, s1) =
               (case get_permissions s target of g # _ \<Rightarrow> (g, s)
                | [] \<Rightarrow> create_permissions s target);
             permissions = edit_permissions (group_permissions group) set_list unset_list;
             s2 = set_permissions s1 target (spread permissions)
         in case updateGroup s2 target (Some (spread permissions)) of
              (Raised e, s3) \<Rightarrow> (Raised e, s3)
            | (Returned _, s3) \<Rightarrow> (Returned True, s3)))"

subsection \<open>The commands\<close>

record options =
  opt_user :: "string option"
  opt_currentUser :: bool
  opt_channel :: "string option"
  opt_currentChannel :: bool
  opt_group :: "string option"
  opt_delete :: bool

record session =
  session_uid :: string
  session_cid :: string

text \<open>
  The action answers with a rendered message or with the result of executing another
  command; an exception raised inside it leaves the action and goes to the host.
\<close>

datatype response =
    Text string
  | TextPermissions string string "string list option"
  | Execute string
  | Throws error

text \<open>
  An option that takes a value is a string or \<open>undefined\<close>. It is truthy when it is
  given and not empty; inside a template literal \<open>undefined\<close> prints as its name.
\<close>

definition truthy :: "string option \<Rightarrow> bool" where
  "truthy v = (case v of None \<Rightarrow> False | Some x \<Rightarrow> x \<noteq> [])"

definition interpolate :: "string option \<Rightarrow> string" where
  "interpolate v = (case v of None \<Rightarrow> ''undefined'' | Some x \<Rightarrow> x)"

definition resolveTarget :: "session \<Rightarrow> options \<Rightarrow> string option" where
  "resolveTarget session opts =
     (if truthy (opt_user opts) then Some (''@'' @ interpolate (opt_user opts))
      else if opt_currentUser opts then Some (''#'' @ session_uid session)
      else if truthy (opt_channel opts) then Some (''#'' @ interpolate (opt_channel opts))
      else if opt_currentChannel opts then Some (''#'' @ session_cid session)
      else if truthy (opt_group opts) then Some (''group.'' @ interpolate (opt_group opts))
      else None)"

definition set_of_perms :: "string list \<Rightarrow> string list" where
  "set_of_perms perms = filter (\<lambda>x. \<not> startsWith x ''~'') perms"

definition unset_of_perms :: "string list \<Rightarrow> string list" where
  "unset_of_perms perms = map (\<lambda>x. sliceFrom x 1) (filter (\<lambda>x. startsWith x ''~'') perms)"

definition perm_action :: "state \<Rightarrow> session \<Rightarrow> options \<Rightarrow> string list \<Rightarrow> response \<times> state" where
  "perm_action s session opts perms =
     (if opt_delete opts \<and> truthy (opt_group opts) \<and> perms = [] then
        (case deleteGroup s (''group.'' @ interpolate (opt_group opts)) of
           (Raised e, s') \<Rightarrow> (Throws e, s')
         | (Returned _, s') \<Rightarrow> (Text ''.deleted'', s'))
      else
        (case resolveTarget session opts of
           None \<Rightarrow> (Execute ''perm -h'', s)
         | Some target \<Rightarrow>
             (if target = [] then (Execute ''perm -h'', s)
              else if perms \<noteq> [] then
                (let set_list = set_of_perms perms;
                     unset_list = unset_of_perms perms
                 in if list_ex (\<lambda>x. \<not> array_includes (permissions_list s) x) set_list
                    then (Text ''.unknown-permission'', s)
                    else (case modifyPermission s target set_list unset_list of
                            (Raised e, s') \<Rightarrow> (Throws e, s')
                          | (Returned ok, s') \<Rightarrow>
                              (if ok then Text ''.success'' else Text ''.failure'', s')))
              else (TextPermissions ''.permissions'' target (listPermission s target), s))))"

definition perm_list_action :: "state \<Rightarrow> string" where
  "perm_list_action s = join [CHR 0x0A] (permissions_list s)"

subsection \<open>Reading the results back\<close>

text \<open>
  The list \<open>modifyPermission\<close> starts from is the one \<open>listPermission\<close> returns for
  the target, or the empty default of the record it creates when there is none.
\<close>

abbreviation stored_permissions :: "state \<Rightarrow> string \<Rightarrow> string list" where
  "stored_permissions s target \<equiv> (case listPermission s target of None \<Rightarrow> [] | Some ps \<Rightarrow> ps)"

text \<open>
  \<open>String.prototype.split\<close> with a one-character separator. The plugin does not call
  it; it reads the output of \<open>perm.list\<close> back into its lines.
\<close>

fun split_on :: "char \<Rightarrow> string \<Rightarrow> string list" where
  "split_on c [] = [[]]"
| "split_on c (x # xs) =
     (if x = c then [] # split_on c xs
      else (case split_on c xs of [] \<Rightarrow> [[x]] | l # ls \<Rightarrow> (x # l) # ls))"

subsection \<open>Example inputs\<close>

definition example_session :: session where
  "example_session = \<lparr>session_uid = ''discord:1'', session_cid = ''discord:c''\<rparr>"

definition no_options :: options where
  "no_options = \<lparr>opt_user = None, opt_currentUser = False, opt_channel = None,
                  opt_currentChannel = False, opt_group = None, opt_delete = False\<rparr>"

definition example_state :: state where
  "example_state =
     \<lparr>users = [\<lparr>user_id = 1, user_platform = ''discord'', user_pid = ''1'',
                 user_permissions = [''a'']\<rparr>],
      channels = [],
      groups = [\<lparr>group_id = 1, group_name = ''group.admins'',
                  group_permissions = [''b'', ''a'']\<rparr>],
      registry = [\<lparr>def_handle = 0, def_name = ''a'', def_inherits = []\<rparr>,
                  \<lparr>def_handle = 1, def_name = ''b'', def_inherits = []\<rparr>,
                  \<lparr>def_handle = 2, def_name = ''group.admins'', def_inherits = [''b'', ''a'']\<rparr>],
      next_handle = 3,
      disposables = [''group.admins'' \<mapsto> 2]\<rparr>"

section \<open>Auxiliary facts\<close>

subsection \<open>Sets as duplicate-free lists\<close>

lemma set_fold_set_add: "set (fold set_add xs acc) = set acc \<union> set xs"
  by (induction xs arbitrary: acc) (auto simp: set_add_def)

lemma distinct_fold_set_add: "distinct acc \<Longrightarrow> distinct (fold set_add xs acc)"
  by (induction xs arbitrary: acc) (auto simp: set_add_def)

lemma set_fold_set_delete: "set (fold set_delete xs acc) = set acc - set xs"
  by (induction xs arbitrary: acc) (auto simp: set_delete_def)

lemma distinct_fold_set_delete: "distinct acc \<Longrightarrow> distinct (fold set_delete xs acc)"
  by (induction xs arbitrary: acc) (auto simp: set_delete_def)

lemma set_edit_permissions:
  "set (edit_permissions stored a u) = (set stored \<union> set a) - set u"
  by (simp add: edit_permissions_def newSet_def set_fold_set_add set_fold_set_delete)

lemma distinct_edit_permissions: "distinct (edit_permissions stored a u)"
  by (simp add: edit_permissions_def newSet_def distinct_fold_set_add distinct_fold_set_delete)

lemma find_map_same:
  "(\<And>x. P (f x) = P x) \<Longrightarrow> find P (map f xs) = map_option f (find P xs)"
  by (induction xs) auto

lemma find_snoc_None: "find P xs = None \<Longrightarrow> find P (xs @ [x]) = (if P x then Some x else None)"
  by (induction xs) (auto split: if_splits)

lemma getUser_set_user:
  "getUser (set_user s i ps) key =
     map_option (\<lambda>u. if user_id u = i then u\<lparr>user_permissions := ps\<rparr> else u) (getUser s key)"
  unfolding getUser_def set_user_def by (simp add: find_map_same)

lemma getUser_createUser:
  "getUser s key = None \<Longrightarrow> getUser (snd (createUser s key)) key = Some (fst (createUser s key))"
  unfolding getUser_def createUser_def by (simp add: find_snoc_None Let_def)

lemma getChannel_set_channel:
  "getChannel (set_channel s k ps) key =
     map_option (\<lambda>c. if channel_platform c = fst k \<and> channel_id c = snd k
                      then c\<lparr>channel_permissions := ps\<rparr> else c) (getChannel s key)"
  unfolding getChannel_def set_channel_def by (simp add: find_map_same)

lemma getChannel_createChannel:
  "getChannel s key = None \<Longrightarrow>
     getChannel (snd (createChannel s key)) key = Some (fst (createChannel s key))"
  unfolding getChannel_def createChannel_def by (simp add: find_snoc_None Let_def)

lemma getChannel_SomeD:
  "getChannel s key = Some c \<Longrightarrow> channel_platform c = fst key \<and> channel_id c = snd key"
  unfolding getChannel_def by (auto simp: find_Some_iff)

lemma get_permissions_set_permissions:
  "get_permissions (set_permissions s name ps) name =
     map (\<lambda>g. g\<lparr>group_permissions := ps\<rparr>) (get_permissions s name)"
  unfolding get_permissions_def set_permissions_def
  by (induction "groups s" arbitrary: s) (auto simp: filter_map comp_def)

subsection \<open>Calling a disposer\<close>


lemma group_prefix_not_inherited: "''group.'' @ g \<notin> set object_prototype_keys"
  by (simp add: object_prototype_keys_def)

lemma call_disposable_stored:
  "name \<notin> set object_prototype_keys \<Longrightarrow>
     call_disposable s name =
       (Returned (), case disposables s name of None \<Rightarrow> s | Some h \<Rightarrow> dispose s h)"
  by (auto simp: call_disposable_def object_prototype_keys_def split: option.splits)


lemma call_disposable_tables [simp]:
  "users (snd (call_disposable s name)) = users s"
  "channels (snd (call_disposable s name)) = channels s"
  "groups (snd (call_disposable s name)) = groups s"
  by (simp_all add: call_disposable_def call_inherited_def dispose_def split: option.splits)

lemma updateGroup_tables [simp]:
  "users (snd (updateGroup s name p)) = users s"
  "channels (snd (updateGroup s name p)) = channels s"
  "groups (snd (updateGroup s name p)) = groups s"
  using call_disposable_tables [of s name]
  by (auto simp: updateGroup_def permissions_define_def Let_def split_beta
      split: option.splits list.splits prod.splits outcome.splits)


lemma updateGroup_stored:
  "name \<notin> set object_prototype_keys \<Longrightarrow>
     updateGroup s name (Some ps) =
       (Returned (),
        s\<lparr>registry := filter (\<lambda>d. Some (def_handle d) \<noteq> disposables s name) (registry s)
                        @ [\<lparr>def_handle = next_handle s, def_name = name, def_inherits = ps\<rparr>],
          next_handle := Suc (next_handle s),
          disposables := (disposables s)(name \<mapsto> next_handle s)\<rparr>)"
  by (cases "disposables s name")
    (simp_all add: updateGroup_def call_disposable_stored permissions_define_def dispose_def)

lemma deleteGroup_stored:
  "name \<notin> set object_prototype_keys \<Longrightarrow>
     deleteGroup s name =
       (Returned (),
        s\<lparr>groups := filter (\<lambda>g. group_name g \<noteq> name) (groups s),
          registry := filter (\<lambda>d. Some (def_handle d) \<noteq> disposables s name) (registry s),
          disposables := (disposables s)(name := None)\<rparr>)"
  by (cases "disposables s name")
    (simp_all add: deleteGroup_def call_disposable_stored remove_permissions_def dispose_def)

lemma groups_deleteGroup:
  "groups (snd (deleteGroup s name)) = filter (\<lambda>g. group_name g \<noteq> name) (groups s)"
proof (cases "call_disposable (remove_permissions s name) name")
  case (Pair r s2)
  then have "groups s2 = groups (remove_permissions s name)"
    using call_disposable_tables(3) [of "remove_permissions s name" name] by simp
  with Pair show ?thesis
    by (cases r) (simp_all add: deleteGroup_def remove_permissions_def)
qed

lemma deleteGroup_absent:
  assumes "get_permissions s name = []" and "disposables s name = None"
    and "name \<notin> set object_prototype_keys"
  shows "deleteGroup s name = (Returned (), s)"
proof -
  from assms(1) have "filter (\<lambda>g. group_name g \<noteq> name) (groups s) = groups s"
    by (auto simp: get_permissions_def filter_empty_conv filter_id_conv)
  moreover from assms(2) have "(disposables s)(name := None) = disposables s"
    by (simp add: fun_upd_idem)
  ultimately show ?thesis
    using assms(2,3) by (simp add: deleteGroup_stored)
qed

text \<open>
  At the inherited keys the call behaves otherwise: it raises, or it runs the disposer
  stored under \<open>toString\<close>.
\<close>

lemma deleteGroup_inherited_examples:
  "fst (deleteGroup example_state ''__proto__'') = Raised TypeError"
  "fst (deleteGroup example_state ''__defineSetter__'') = Raised TypeError"
  "fst (deleteGroup example_state ''constructor'') = Returned ()"
  "registry (snd (deleteGroup example_state ''constructor'')) = registry example_state"
  "get_permissions (example_state\<lparr>disposables := [''toString'' \<mapsto> 2]\<rparr>) ''toLocaleString'' = []"
  "disposables (example_state\<lparr>disposables := [''toString'' \<mapsto> 2]\<rparr>) ''toLocaleString'' = None"
  "registry (snd (deleteGroup (example_state\<lparr>disposables := [''toString'' \<mapsto> 2]\<rparr>)
      ''toLocaleString'')) =
     [\<lparr>def_handle = 0, def_name = ''a'', def_inherits = []\<rparr>,
      \<lparr>def_handle = 1, def_name = ''b'', def_inherits = []\<rparr>]"
  by (simp_all add: deleteGroup_def call_disposable_def call_inherited_def
      object_prototype_keys_def remove_permissions_def dispose_def get_permissions_def
      example_state_def)

subsection \<open>What modifyPermission leaves in the tables\<close>

lemma get_permissions_updateGroup [simp]:
  "get_permissions (snd (updateGroup s name p)) n = get_permissions s n"
  by (simp add: get_permissions_def)

lemma get_permissions_create:
  "get_permissions s name = [] \<Longrightarrow>
     get_permissions (snd (create_permissions s name)) name = [fst (create_permissions s name)]"
  by (simp add: get_permissions_def create_permissions_def Let_def)

lemma modifyPermission_group:
  assumes "target \<noteq> []" "\<not> startsWith target ''@''" "\<not> startsWith target ''#''"
  shows "snd (modifyPermission s target a u) =
           snd (updateGroup
                 (set_permissions
                    (snd (case get_permissions s target of [] \<Rightarrow> create_permissions s target
                          | g # _ \<Rightarrow> (g, s)))
                    target (edit_permissions (stored_permissions s target) a u))
                 target (Some (edit_permissions (stored_permissions s target) a u)))"
    and "fst (modifyPermission s target a u) =
           (case fst (updateGroup
                 (set_permissions
                    (snd (case get_permissions s target of [] \<Rightarrow> create_permissions s target
                          | g # _ \<Rightarrow> (g, s)))
                    target (edit_permissions (stored_permissions s target) a u))
                 target (Some (edit_permissions (stored_permissions s target) a u))) of
              Raised e \<Rightarrow> Raised e | Returned _ \<Rightarrow> Returned True)"
  using assms
  by (auto simp: modifyPermission_def listPermission_def Let_def split_beta spread_def
      create_permissions_def split: list.splits prod.splits outcome.splits)

lemma listPermission_modify_user:
  assumes "target \<noteq> []" "startsWith target ''@''"
  shows "listPermission (snd (modifyPermission s target a u)) target =
           Some (edit_permissions (stored_permissions s target) a u)"
proof (cases "getUser s (parsePlatform (sliceFrom target 1))")
  case None
  with assms show ?thesis
    using getUser_createUser [OF None]
    by (simp add: listPermission_def modifyPermission_def Let_def split_beta
        getUser_set_user spread_def createUser_def)
next
  case (Some x)
  with assms show ?thesis
    by (simp add: listPermission_def modifyPermission_def Let_def getUser_set_user spread_def)
qed

lemma listPermission_modify_channel:
  assumes "target \<noteq> []" "\<not> startsWith target ''@''" "startsWith target ''#''"
  shows "listPermission (snd (modifyPermission s target a u)) target =
           Some (edit_permissions (stored_permissions s target) a u)"
proof (cases "getChannel s (parsePlatform (sliceFrom target 1))")
  case None
  with assms show ?thesis
    using getChannel_createChannel [OF None]
    by (simp add: listPermission_def modifyPermission_def Let_def split_beta
        getChannel_set_channel spread_def createChannel_def)
next
  case (Some x)
  with assms show ?thesis
    using getChannel_SomeD [OF Some]
    by (simp add: listPermission_def modifyPermission_def Let_def getChannel_set_channel spread_def)
qed

lemma listPermission_modify_group:
  assumes "target \<noteq> []" "\<not> startsWith target ''@''" "\<not> startsWith target ''#''"
  shows "listPermission (snd (modifyPermission s target a u)) target =
           Some (edit_permissions (stored_permissions s target) a u)"
proof (cases "get_permissions s target")
  case Nil
  with assms show ?thesis
    using get_permissions_create [OF Nil]
    by (simp add: modifyPermission_group(1) listPermission_def
        get_permissions_set_permissions)
next
  case (Cons g gs)
  with assms show ?thesis
    by (simp add: modifyPermission_group(1) listPermission_def
        get_permissions_set_permissions)
qed

lemma listPermission_modifyPermission:
  assumes "target \<noteq> []"
  shows "listPermission (snd (modifyPermission s target a u)) target =
           Some (edit_permissions (stored_permissions s target) a u)"
  using assms listPermission_modify_user listPermission_modify_channel listPermission_modify_group
  by blast


lemma modifyPermission_returns:
  assumes "target \<noteq> []"
    and "startsWith target ''@'' \<or> startsWith target ''#'' \<or> target \<notin> set object_prototype_keys"
  shows "fst (modifyPermission s target a u) = Returned True"
proof (cases "startsWith target ''@'' \<or> startsWith target ''#''")
  case True
  with assms(1) show ?thesis
    by (auto simp: modifyPermission_def Let_def split_beta)
next
  case False
  with assms show ?thesis
    by (simp add: modifyPermission_group(2) updateGroup_stored)
qed

lemma resolveTarget_nonempty: "resolveTarget session opts = Some target \<Longrightarrow> target \<noteq> []"
  by (auto simp: resolveTarget_def split: if_splits)

lemma resolveTarget_tagged:
  "resolveTarget session opts = Some target \<Longrightarrow>
     startsWith target ''@'' \<or> startsWith target ''#'' \<or> target \<notin> set object_prototype_keys"
  by (auto simp: resolveTarget_def startsWith_def object_prototype_keys_def split: if_splits)

lemma modifyPermission_resolved:
  "resolveTarget session opts = Some target \<Longrightarrow>
     fst (modifyPermission s target a u) = Returned True"
  by (rule modifyPermission_returns [OF resolveTarget_nonempty resolveTarget_tagged])

lemma row_count_modifyPermission:
  "length (users (snd (modifyPermission s target a u)))
     + length (channels (snd (modifyPermission s target a u)))
     + length (groups (snd (modifyPermission s target a u)))
   = length (users s) + length (channels s) + length (groups s)
     + (if target \<noteq> [] \<and> listPermission s target = None then 1 else 0)"
proof (cases "target \<noteq> [] \<and> \<not> startsWith target ''@'' \<and> \<not> startsWith target ''#''")
  case True
  then show ?thesis
    by (simp add: modifyPermission_group(1) listPermission_def set_permissions_def
        create_permissions_def Let_def split: list.splits)
next
  case False
  then show ?thesis
    by (auto simp: modifyPermission_def listPermission_def Let_def split_beta set_user_def
      set_channel_def createUser_def createChannel_def split: option.splits)
qed

lemma registry_modify_group:
  assumes "target \<noteq> []" "\<not> startsWith target ''@''" "\<not> startsWith target ''#''"
    and "target \<notin> set object_prototype_keys"
  shows "registry (snd (modifyPermission s target a u)) =
           filter (\<lambda>d. Some (def_handle d) \<noteq> disposables s target) (registry s)
           @ [\<lparr>def_handle = next_handle s, def_name = target,
                def_inherits = edit_permissions (stored_permissions s target) a u\<rparr>]"
    and "disposables (snd (modifyPermission s target a u)) =
           (disposables s)(target \<mapsto> next_handle s)"
  using assms
  by (auto simp: modifyPermission_group(1) updateGroup_stored set_permissions_def
      create_permissions_def Let_def split: list.splits)

subsection \<open>Strings\<close>

lemma split_on_append:
  "c \<notin> set n \<Longrightarrow> split_on c (n @ c # rest) = n # split_on c rest"
  by (induction n) auto

lemma split_on_single: "c \<notin> set n \<Longrightarrow> split_on c n = [n]"
  by (induction n) auto

lemma split_on_join:
  "names \<noteq> [] \<Longrightarrow> \<forall>n\<in>set names. c \<notin> set n \<Longrightarrow> split_on c (join [c] names) = names"
  by (induction "[c]" names rule: join.induct) (auto simp: split_on_single split_on_append)

lemma startsWith_tilde: "startsWith x ''~'' \<longleftrightarrow> (\<exists>y. x = CHR ''~'' # y)"
  by (cases x) (auto simp: startsWith_def)

lemma sliceFrom_1: "sliceFrom x 1 = drop 1 x"
  by (cases x) (simp_all add: sliceFrom_def slice_def relIndex_def Let_def)

subsection \<open>The answers of the perm command\<close>

lemma perm_action_delete:
  assumes "opt_delete opts" "truthy (opt_group opts)" "perms = []"
  shows "perm_action s session opts perms =
           (Text ''.deleted'', snd (deleteGroup s (''group.'' @ interpolate (opt_group opts))))"
proof -
  obtain s2 where "deleteGroup s (''group.'' @ interpolate (opt_group opts)) = (Returned (), s2)"
    using deleteGroup_stored [OF group_prefix_not_inherited] by blast
  then show ?thesis
    using assms unfolding perm_action_def by (simp del: append.simps)
qed

lemma perm_action_modify:
  assumes "resolveTarget session opts = Some target" "perms \<noteq> []"
    and "\<not> list_ex (\<lambda>x. \<not> array_includes (permissions_list s) x) (set_of_perms perms)"
  shows "perm_action s session opts perms =
           (Text ''.success'',
            snd (modifyPermission s target (set_of_perms perms) (unset_of_perms perms)))"
proof -
  obtain r s' where m:
    "modifyPermission s target (set_of_perms perms) (unset_of_perms perms) = (r, s')"
    by (cases "modifyPermission s target (set_of_perms perms) (unset_of_perms perms)")
  then have "r = Returned True"
    using modifyPermission_resolved [OF assms(1), of s "set_of_perms perms" "unset_of_perms perms"]
    by simp
  moreover have "target \<noteq> []" using assms(1) by (rule resolveTarget_nonempty)
  ultimately show ?thesis
    using assms m by (simp add: perm_action_def Let_def)
qed

lemma perm_action_response:
  "fst (perm_action s session opts perms) \<in>
      {Text ''.deleted'', Text ''.unknown-permission'', Text ''.success'', Execute ''perm -h''}
    \<or> (\<exists>target. fst (perm_action s session opts perms) =
          TextPermissions ''.permissions'' target (listPermission s target))"
proof (cases "opt_delete opts \<and> truthy (opt_group opts) \<and> perms = []")
  case True
  then show ?thesis by (simp add: perm_action_delete)
next
  case nodel: False
  show ?thesis
  proof (cases "resolveTarget session opts")
    case None
    with nodel show ?thesis by (auto simp: perm_action_def)
  next
    case (Some target)
    then have ne: "target \<noteq> []" by (rule resolveTarget_nonempty)
    show ?thesis
    proof (cases "perms = []")
      case True
      with nodel Some ne show ?thesis by (auto simp: perm_action_def)
    next
      case False
      show ?thesis
      proof (cases "list_ex (\<lambda>x. \<not> array_includes (permissions_list s) x) (set_of_perms perms)")
        case True
        with False Some ne show ?thesis by (auto simp: perm_action_def Let_def)
      next
        case known: False
        show ?thesis by (simp add: perm_action_modify [OF Some False known])
      qed
    qed
  qed
qed

section \<open>The claims\<close>

subsection \<open>Permission modification\<close>

text \<open>
  Claim C1. For every non-empty target key (user, channel or group) and every pair of
  lists, \<open>modifyPermission\<close> fetches the backing record or creates it when absent
  (one row more exactly when \<open>listPermission\<close> found none before), and the list it
  persists for the target is, as a set, the previous permissions with the \<open>set\<close> list
  added and the \<open>unset\<close> list removed; a name in both lists is absent from it.
\<close>

theorem modifyPermission_persists:
  assumes "target \<noteq> []"
  shows "\<exists>ps. listPermission (snd (modifyPermission s target a u)) target = Some ps
           \<and> set ps = (set (stored_permissions s target) \<union> set a) - set u
           \<and> set a \<inter> set u \<inter> set ps = {}
           \<and> length (users (snd (modifyPermission s target a u)))
               + length (channels (snd (modifyPermission s target a u)))
               + length (groups (snd (modifyPermission s target a u)))
             = length (users s) + length (channels s) + length (groups s)
               + (if listPermission s target = None then 1 else 0)"
proof -
  let ?ps = "edit_permissions (stored_permissions s target) a u"
  have "listPermission (snd (modifyPermission s target a u)) target = Some ?ps"
    using assms by (rule listPermission_modifyPermission)
  moreover have "set ?ps = (set (stored_permissions s target) \<union> set a) - set u"
    by (rule set_edit_permissions)
  moreover have "set a \<inter> set u \<inter> set ?ps = {}"
    unfolding set_edit_permissions by blast
  ultimately show ?thesis
    using assms row_count_modifyPermission [of s target a u] by simp
qed

theorem modifyPermission_persists_witness:
  "''@discord:1'' \<noteq> [] \<and>
   (\<exists>ps. listPermission (snd (modifyPermission example_state ''@discord:1'' [''b'', ''c'']
                  [''c'', ''a''])) ''@discord:1'' = Some ps
         \<and> set ps = {''b''})"
proof -
  have h: "''@discord:1'' \<noteq> []" by simp
  have st: "listPermission example_state ''@discord:1'' = Some [''a'']" by code_simp
  show ?thesis
    using modifyPermission_persists [OF h, of example_state "[''b'', ''c'']" "[''c'', ''a'']"]
    by (auto simp: st)
qed

text \<open>
  Claim C4. After a \<open>modifyPermission\<close> call on a non-empty target the list persisted
  for the target has no duplicates, and its set of names depends only on the sets of
  names of the stored list, the \<open>set\<close> list and the \<open>unset\<close> list, not on their order
  or repetitions.
\<close>

theorem modifyPermission_distinct_order_independent:
  assumes "target \<noteq> []"
    and "set (stored_permissions s1 target) = set (stored_permissions s2 target)"
    and "set a1 = set a2" and "set u1 = set u2"
  shows "\<exists>ps1 ps2.
           listPermission (snd (modifyPermission s1 target a1 u1)) target = Some ps1
         \<and> listPermission (snd (modifyPermission s2 target a2 u2)) target = Some ps2
         \<and> distinct ps1 \<and> distinct ps2 \<and> set ps1 = set ps2"
proof -
  let ?p1 = "edit_permissions (stored_permissions s1 target) a1 u1"
  let ?p2 = "edit_permissions (stored_permissions s2 target) a2 u2"
  have "listPermission (snd (modifyPermission s1 target a1 u1)) target = Some ?p1"
    and "listPermission (snd (modifyPermission s2 target a2 u2)) target = Some ?p2"
    using assms(1) by (rule listPermission_modifyPermission)+
  moreover have "set ?p1 = set ?p2"
    using assms(2-4) by (simp add: set_edit_permissions)
  moreover have "distinct ?p1" and "distinct ?p2"
    by (rule distinct_edit_permissions)+
  ultimately show ?thesis by blast
qed

theorem modifyPermission_distinct_order_independent_witness:
  "set (stored_permissions example_state ''group.admins'')
     = set (stored_permissions (example_state\<lparr>groups :=
         [\<lparr>group_id = 7, group_name = ''group.admins'',
           group_permissions = [''a'', ''b'', ''a'']\<rparr>]\<rparr>) ''group.admins'')
   \<and> (\<exists>ps1 ps2.
         listPermission (snd (modifyPermission example_state ''group.admins''
            [''c'', ''d''] [''a''])) ''group.admins'' = Some ps1
       \<and> listPermission (snd (modifyPermission (example_state\<lparr>groups :=
            [\<lparr>group_id = 7, group_name = ''group.admins'',
              group_permissions = [''a'', ''b'', ''a'']\<rparr>]\<rparr>) ''group.admins''
            [''d'', ''c'', ''d''] [''a'', ''a''])) ''group.admins'' = Some ps2
       \<and> distinct ps1 \<and> distinct ps2 \<and> set ps1 = set ps2)"
proof -
  let ?s2 = "example_state\<lparr>groups :=
         [\<lparr>group_id = 7, group_name = ''group.admins'',
           group_permissions = [''a'', ''b'', ''a'']\<rparr>]\<rparr>"
  have t: "''group.admins'' \<noteq> []" by simp
  have st: "set (stored_permissions example_state ''group.admins'')
     = set (stored_permissions ?s2 ''group.admins'')"
    by code_simp
  have a: "set [''c'', ''d''] = set [''d'', ''c'', ''d'']" by auto
  have u: "set [''a''] = set [''a'', ''a'']" by simp
  show ?thesis
    using modifyPermission_distinct_order_independent [OF t st a u] st by blast
qed

subsection \<open>Groups and the registry\<close>

text \<open>
  Claim C5. For a group target (non-empty, starting with neither \<open>@\<close> nor \<open>#\<close>,
  and not the name of a property the dictionary inherits, as is every \<open>group.\<close>
  key the resolver builds), after \<open>modifyPermission\<close> has persisted the merged list,
  the registration stored for the group name is disposed and the name is defined anew
  with exactly the persisted list; the registration map points to the new definition,
  and no definition of the registry carries the handle of the earlier registration.
\<close>

theorem modifyPermission_group_reregisters:
  assumes "target \<noteq> []" "\<not> startsWith target ''@''" "\<not> startsWith target ''#''"
    and "target \<notin> set object_prototype_keys"
  shows "\<exists>ps. listPermission (snd (modifyPermission s target a u)) target = Some ps
         \<and> registry (snd (modifyPermission s target a u)) =
             filter (\<lambda>d. Some (def_handle d) \<noteq> disposables s target) (registry s)
             @ [\<lparr>def_handle = next_handle s, def_name = target, def_inherits = ps\<rparr>]
         \<and> disposables (snd (modifyPermission s target a u)) =
             (disposables s)(target \<mapsto> next_handle s)
         \<and> (\<forall>h. disposables s target = Some h \<and> h < next_handle s \<longrightarrow>
               h \<notin> def_handle ` set (registry (snd (modifyPermission s target a u))))"
proof -
  let ?ps = "edit_permissions (stored_permissions s target) a u"
  have l: "listPermission (snd (modifyPermission s target a u)) target = Some ?ps"
    using assms(1-3) by (rule listPermission_modify_group)
  have r: "registry (snd (modifyPermission s target a u)) =
             filter (\<lambda>d. Some (def_handle d) \<noteq> disposables s target) (registry s)
             @ [\<lparr>def_handle = next_handle s, def_name = target, def_inherits = ?ps\<rparr>]"
    using assms by (rule registry_modify_group(1))
  have d: "disposables (snd (modifyPermission s target a u)) =
             (disposables s)(target \<mapsto> next_handle s)"
    using assms by (rule registry_modify_group(2))
  have "h \<notin> def_handle ` set (registry (snd (modifyPermission s target a u)))"
    if "disposables s target = Some h" "h < next_handle s" for h
    unfolding r using that by auto
  with l r d show ?thesis by blast
qed

theorem modifyPermission_group_reregisters_witness:
  "\<not> startsWith ''group.admins'' ''@'' \<and> \<not> startsWith ''group.admins'' ''#''
   \<and> ''group.admins'' \<notin> set object_prototype_keys
   \<and> disposables example_state ''group.admins'' = Some 2
   \<and> (\<exists>ps. listPermission (snd (modifyPermission example_state ''group.admins''
                 [''c'', ''c''] [''b''])) ''group.admins'' = Some ps
         \<and> registry (snd (modifyPermission example_state ''group.admins'' [''c'', ''c''] [''b'']))
           = [\<lparr>def_handle = 0, def_name = ''a'', def_inherits = []\<rparr>,
              \<lparr>def_handle = 1, def_name = ''b'', def_inherits = []\<rparr>,
              \<lparr>def_handle = 3, def_name = ''group.admins'', def_inherits = ps\<rparr>]
         \<and> disposables (snd (modifyPermission example_state ''group.admins''
                 [''c'', ''c''] [''b''])) ''group.admins'' = Some 3)
   \<and> 2 \<notin> def_handle ` set (registry (snd (modifyPermission example_state ''group.admins''
                 [''c'', ''c''] [''b''])))"
proof -
  have t: "''group.admins'' \<noteq> []" by simp
  have n1: "\<not> startsWith ''group.admins'' ''@''" by (simp add: startsWith_def)
  have n2: "\<not> startsWith ''group.admins'' ''#''" by (simp add: startsWith_def)
  have k: "''group.admins'' \<notin> set object_prototype_keys"
    by (simp add: object_prototype_keys_def)
  have d: "disposables example_state ''group.admins'' = Some 2 \<and> 2 < next_handle example_state"
    by (simp add: example_state_def)
  show ?thesis
    using modifyPermission_group_reregisters
      [OF t n1 n2 k, of example_state "[''c'', ''c'']" "[''b'']"] n1 n2 k d
    by (auto simp: example_state_def)
qed

text \<open>
  Claim C6. For every group name, \<open>deleteGroup\<close> removes the rows of that name from
  the \<open>permissions\<close> table. When the name is not the name of a property the
  dictionary inherits (no \<open>group.\<close> name is), the call returns, the definition
  registered for the name is disposed, so that no definition of the registry carries
  its handle, and the name's entry is removed from the registration map.
\<close>

theorem deleteGroup_removes_and_disposes:
  "groups (snd (deleteGroup s name)) = filter (\<lambda>g. group_name g \<noteq> name) (groups s)
   \<and> get_permissions (snd (deleteGroup s name)) name = []
   \<and> (name \<notin> set object_prototype_keys \<longrightarrow>
        fst (deleteGroup s name) = Returned ()
      \<and> registry (snd (deleteGroup s name)) =
          filter (\<lambda>d. Some (def_handle d) \<noteq> disposables s name) (registry s)
      \<and> (\<forall>h. disposables s name = Some h \<longrightarrow>
            h \<notin> def_handle ` set (registry (snd (deleteGroup s name))))
      \<and> disposables (snd (deleteGroup s name)) = (disposables s)(name := None))"
proof -
  have g: "groups (snd (deleteGroup s name)) = filter (\<lambda>g. group_name g \<noteq> name) (groups s)"
    by (rule groups_deleteGroup)
  then have e: "get_permissions (snd (deleteGroup s name)) name = []"
    by (simp add: get_permissions_def)
  have "fst (deleteGroup s name) = Returned ()
      \<and> registry (snd (deleteGroup s name)) =
          filter (\<lambda>d. Some (def_handle d) \<noteq> disposables s name) (registry s)
      \<and> (\<forall>h. disposables s name = Some h \<longrightarrow>
            h \<notin> def_handle ` set (registry (snd (deleteGroup s name))))
      \<and> disposables (snd (deleteGroup s name)) = (disposables s)(name := None)"
    if "name \<notin> set object_prototype_keys"
    using that by (auto simp: deleteGroup_stored)
  with g e show ?thesis by blast
qed

theorem deleteGroup_removes_and_disposes_witness:
  "''group.admins'' \<notin> set object_prototype_keys
   \<and> fst (deleteGroup example_state ''group.admins'') = Returned ()
   \<and> groups (snd (deleteGroup example_state ''group.admins'')) = []
   \<and> listPermission (snd (deleteGroup example_state ''group.admins'')) ''group.admins'' = None
   \<and> disposables example_state ''group.admins'' = Some 2
   \<and> registry (snd (deleteGroup example_state ''group.admins'')) =
       [\<lparr>def_handle = 0, def_name = ''a'', def_inherits = []\<rparr>,
        \<lparr>def_handle = 1, def_name = ''b'', def_inherits = []\<rparr>]
   \<and> disposables (snd (deleteGroup example_state ''group.admins'')) ''group.admins'' = None"
proof -
  have k: "''group.admins'' \<notin> set object_prototype_keys"
    by (simp add: object_prototype_keys_def)
  show ?thesis
    using deleteGroup_removes_and_disposes [of example_state "''group.admins''"] k
    by (simp add: example_state_def listPermission_def startsWith_def)
qed

subsection \<open>The perm command\<close>

text \<open>
  Claim C2 asks that both user flags give a target tagged \<open>@\<close>. The explicit user
  flag does; the current-user flag is tagged \<open>#\<close>, so the session's user id is
  looked up in the channel table. With \<open>-U\<close> alone, for the user \<open>discord:1\<close>
  who holds the permission \<open>a\<close>, the command resolves \<open>#discord:1\<close> and reports no
  permission list.
\<close>

theorem resolveTarget_currentUser_tagged_as_channel:
  "resolveTarget example_session (no_options\<lparr>opt_currentUser := True\<rparr>) = Some ''#discord:1''
   \<and> resolveTarget example_session (no_options\<lparr>opt_user := Some ''discord:1''\<rparr>)
       = Some ''@discord:1''
   \<and> fst (perm_action example_state example_session (no_options\<lparr>opt_currentUser := True\<rparr>) [])
       = TextPermissions ''.permissions'' ''#discord:1'' None
   \<and> listPermission example_state ''@discord:1'' = Some [''a'']"
  by code_simp

text \<open>
  Claim C3. When the perm command has a target and a non-empty list of names, and
  some name without the \<open>~\<close> prefix is not among the registry's known names, the
  command answers with the unknown-permission message and the state (records,
  permission lists, registry and registrations) is the one it started from.
\<close>

theorem perm_unknown_permission_no_mutation:
  assumes "resolveTarget session opts = Some target" and "perms \<noteq> []"
    and "\<exists>x\<in>set perms. \<not> startsWith x ''~'' \<and> x \<notin> set (permissions_list s)"
  shows "perm_action s session opts perms = (Text ''.unknown-permission'', s)"
proof -
  have "target \<noteq> []" using assms(1) by (rule resolveTarget_nonempty)
  moreover have "list_ex (\<lambda>x. \<not> array_includes (permissions_list s) x) (set_of_perms perms)"
    using assms(3) by (auto simp: list_ex_iff set_of_perms_def array_includes_def)
  ultimately show ?thesis
    using assms(1,2) by (simp add: perm_action_def Let_def)
qed

theorem perm_unknown_permission_no_mutation_witness:
  "resolveTarget example_session (no_options\<lparr>opt_group := Some ''staff''\<rparr>) = Some ''group.staff''
   \<and> ''zzz'' \<notin> set (permissions_list example_state)
   \<and> perm_action example_state example_session (no_options\<lparr>opt_group := Some ''staff''\<rparr>)
         [''a'', ''zzz'', ''~b'']
       = (Text ''.unknown-permission'', example_state)"
proof -
  have r: "resolveTarget example_session (no_options\<lparr>opt_group := Some ''staff''\<rparr>)
             = Some ''group.staff''"
    by code_simp
  have p: "[''a'', ''zzz'', ''~b''] \<noteq> []" by simp
  have z: "''zzz'' \<notin> set (permissions_list example_state)" by code_simp
  have n: "\<not> startsWith ''zzz'' ''~''" by code_simp
  have e: "\<exists>x\<in>set [''a'', ''zzz'', ''~b''].
             \<not> startsWith x ''~'' \<and> x \<notin> set (permissions_list example_state)"
    using z n by simp
  show ?thesis
    using perm_unknown_permission_no_mutation [OF r p e] r z by simp
qed

text \<open>
  Claim C7 asks for an unknown-group message when the delete flag names a group that
  does not exist. The command has no such message: for the group \<open>ghost\<close>, which has
  no row, it answers with the deleted message.
\<close>

theorem perm_delete_missing_group_counterexample:
  "get_permissions example_state ''group.ghost'' = []
   \<and> fst (perm_action example_state example_session
        (no_options\<lparr>opt_group := Some ''ghost'', opt_delete := True\<rparr>) []) = Text ''.deleted''
   \<and> fst (perm_action example_state example_session
        (no_options\<lparr>opt_group := Some ''ghost'', opt_delete := True\<rparr>) [])
       \<noteq> Text ''.unknown-group''"
  by code_simp

text \<open>
  Claim C7, amended. Every outcome of the perm command is a rendered message (deleted,
  unknown permission, success, the permission list of the target) or the command's
  help. With the delete flag, a group name and no permission names the command runs
  \<open>deleteGroup\<close> on \<open>group.<name>\<close> and answers with the deleted message, whether
  or not the group exists; for a group with no row and no registration, under a name
  that is not a property the dictionary inherits (as every \<open>group.<name>\<close>),
  \<open>deleteGroup\<close> returns and leaves the state as it was.
\<close>

theorem perm_action_renders_message:
  "(fst (perm_action s session opts perms) \<in>
      {Text ''.deleted'', Text ''.unknown-permission'', Text ''.success'', Execute ''perm -h''}
    \<or> (\<exists>target. fst (perm_action s session opts perms) =
          TextPermissions ''.permissions'' target (listPermission s target)))
   \<and> (opt_delete opts \<and> truthy (opt_group opts) \<and> perms = [] \<longrightarrow>
        perm_action s session opts perms =
          (Text ''.deleted'', snd (deleteGroup s (''group.'' @ interpolate (opt_group opts))))
        \<and> fst (deleteGroup s (''group.'' @ interpolate (opt_group opts))) = Returned ())
   \<and> (get_permissions s name = [] \<and> disposables s name = None
        \<and> name \<notin> set object_prototype_keys \<longrightarrow>
        deleteGroup s name = (Returned (), s))"
proof -
  have "fst (deleteGroup s (''group.'' @ interpolate (opt_group opts))) = Returned ()"
    by (simp only: deleteGroup_stored [OF group_prefix_not_inherited] fst_conv)
  then show ?thesis
    using perm_action_response [of s session opts perms]
    by (simp add: perm_action_delete deleteGroup_absent del: append.simps)
qed

theorem perm_action_renders_message_witness:
  "get_permissions example_state ''group.ghost'' = []
   \<and> disposables example_state ''group.ghost'' = None
   \<and> ''group.ghost'' \<notin> set object_prototype_keys
   \<and> deleteGroup example_state ''group.ghost'' = (Returned (), example_state)
   \<and> perm_action example_state example_session
        (no_options\<lparr>opt_group := Some ''ghost'', opt_delete := True\<rparr>) []
       = (Text ''.deleted'', example_state)"
proof -
  let ?o = "no_options\<lparr>opt_group := Some ''ghost'', opt_delete := True\<rparr>"
  have g: "get_permissions example_state ''group.ghost'' = []" by code_simp
  have d: "disposables example_state ''group.ghost'' = None" by (simp add: example_state_def)
  have k: "''group.ghost'' \<notin> set object_prototype_keys"
    by (simp add: object_prototype_keys_def)
  have f: "opt_delete ?o \<and> truthy (opt_group ?o) \<and> ([]::string list) = []"
    by (simp add: truthy_def)
  have i: "''group.'' @ interpolate (opt_group ?o) = ''group.ghost''"
    by (simp add: interpolate_def)
  show ?thesis
    using perm_action_renders_message [of example_state example_session ?o "[]" "''group.ghost''"]
      g d k f i
    by simp
qed

text \<open>
  Claim C8. The names given to the perm command are split in two: the names that
  start with \<open>~\<close> are the removals, with the \<open>~\<close> stripped, and all the others are
  the additions; these two lists are what \<open>modifyPermission\<close> receives. The
  \<open>perm.list\<close> command returns the registry's names joined by newlines, so
  splitting its output at the newlines gives the names back, one per line.
\<close>

theorem perms_partition_and_list:
  "(x \<in> set (set_of_perms perms) \<longleftrightarrow> x \<in> set perms \<and> \<not> startsWith x ''~'')
   \<and> (y \<in> set (unset_of_perms perms) \<longleftrightarrow> (''~'' @ y) \<in> set perms)
   \<and> length (set_of_perms perms) + length (unset_of_perms perms) = length perms
   \<and> (resolveTarget session opts = Some target \<and> perms \<noteq> []
        \<and> set (set_of_perms perms) \<subseteq> set (permissions_list s) \<longrightarrow>
        perm_action s session opts perms =
          (Text ''.success'',
           snd (modifyPermission s target (set_of_perms perms) (unset_of_perms perms))))
   \<and> perm_list_action s = join [CHR 0x0A] (permissions_list s)
   \<and> (permissions_list s \<noteq> [] \<and> (\<forall>n\<in>set (permissions_list s). CHR 0x0A \<notin> set n) \<longrightarrow>
        split_on (CHR 0x0A) (perm_list_action s) = permissions_list s)"
proof -
  have 1: "x \<in> set (set_of_perms perms) \<longleftrightarrow> x \<in> set perms \<and> \<not> startsWith x ''~''"
    by (simp add: set_of_perms_def)
  have 2: "y \<in> set (unset_of_perms perms) \<longleftrightarrow> (''~'' @ y) \<in> set perms"
    by (auto simp: unset_of_perms_def startsWith_tilde sliceFrom_1 image_iff)
  have 3: "length (set_of_perms perms) + length (unset_of_perms perms) = length perms"
    using sum_length_filter_compl [of "\<lambda>x. startsWith x ''~''" perms]
    by (simp add: set_of_perms_def unset_of_perms_def)
  have 4: "perm_action s session opts perms =
          (Text ''.success'',
           snd (modifyPermission s target (set_of_perms perms) (unset_of_perms perms)))"
    if "resolveTarget session opts = Some target" "perms \<noteq> []"
      "set (set_of_perms perms) \<subseteq> set (permissions_list s)"
  proof -
    have "\<not> list_ex (\<lambda>x. \<not> array_includes (permissions_list s) x) (set_of_perms perms)"
      using that(3) by (auto simp: list_ex_iff array_includes_def)
    with that(1,2) show ?thesis by (rule perm_action_modify)
  qed
  have 5: "split_on (CHR 0x0A) (perm_list_action s) = permissions_list s"
    if "permissions_list s \<noteq> []" "\<forall>n\<in>set (permissions_list s). CHR 0x0A \<notin> set n"
    unfolding perm_list_action_def using that by (rule split_on_join)
  show ?thesis using 1 2 3 4 5 by (simp add: perm_list_action_def)
qed

theorem perms_partition_and_list_witness:
  "set_of_perms [''a'', ''~b'', ''~~c'', ''b''] = [''a'', ''b'']
   \<and> unset_of_perms [''a'', ''~b'', ''~~c'', ''b''] = [''b'', ''~c'']
   \<and> resolveTarget example_session (no_options\<lparr>opt_user := Some ''discord:1''\<rparr>)
       = Some ''@discord:1''
   \<and> perm_action example_state example_session (no_options\<lparr>opt_user := Some ''discord:1''\<rparr>)
        [''a'', ''~b'', ''~~c'', ''b'']
       = (Text ''.success'',
          snd (modifyPermission example_state ''@discord:1'' [''a'', ''b''] [''b'', ''~c'']))
   \<and> perm_list_action example_state = ''a'' @ [CHR 0x0A] @ ''b'' @ [CHR 0x0A] @ ''group.admins''
   \<and> split_on (CHR 0x0A) (perm_list_action example_state) = [''a'', ''b'', ''group.admins'']"
proof -
  let ?o = "no_options\<lparr>opt_user := Some ''discord:1''\<rparr>"
  let ?p = "[''a'', ''~b'', ''~~c'', ''b'']"
  have a: "set_of_perms ?p = [''a'', ''b'']" by code_simp
  have b: "unset_of_perms ?p = [''b'', ''~c'']" by code_simp
  have r: "resolveTarget example_session ?o = Some ''@discord:1''" by code_simp
  have l: "permissions_list example_state = [''a'', ''b'', ''group.admins'']" by code_simp
  show ?thesis
    using perms_partition_and_list [of _ ?p _ example_session ?o "''@discord:1''" example_state]
      a b r l
    by simp
qed

text \<open>
  Claim C9. When none of the user, current-user, channel, current-channel and group
  flags is given, no target is resolved and the perm command asks for its own help,
  leaving the state as it was; and \<open>listPermission\<close> returns nothing for a target
  whose user, channel or group record does not exist.
\<close>

theorem perm_no_target_help_and_list_missing:
  "(\<not> truthy (opt_user opts) \<and> \<not> opt_currentUser opts \<and> \<not> truthy (opt_channel opts)
      \<and> \<not> opt_currentChannel opts \<and> \<not> truthy (opt_group opts) \<longrightarrow>
      resolveTarget session opts = None
      \<and> perm_action s session opts perms = (Execute ''perm -h'', s))
   \<and> (startsWith target ''@'' \<and> getUser s (parsePlatform (sliceFrom target 1)) = None \<longrightarrow>
        listPermission s target = None)
   \<and> (\<not> startsWith target ''@'' \<and> startsWith target ''#''
        \<and> getChannel s (parsePlatform (sliceFrom target 1)) = None \<longrightarrow>
        listPermission s target = None)
   \<and> (\<not> startsWith target ''@'' \<and> \<not> startsWith target ''#''
        \<and> get_permissions s target = [] \<longrightarrow>
        listPermission s target = None)"
  by (simp add: resolveTarget_def perm_action_def listPermission_def)

theorem perm_no_target_help_and_list_missing_witness:
  "resolveTarget example_session (no_options\<lparr>opt_delete := True\<rparr>) = None
   \<and> perm_action example_state example_session (no_options\<lparr>opt_delete := True\<rparr>) [''a'']
       = (Execute ''perm -h'', example_state)
   \<and> get_permissions example_state ''group.ghost'' = []
   \<and> listPermission example_state ''group.ghost'' = None"
proof -
  let ?o = "no_options\<lparr>opt_delete := True\<rparr>"
  have f: "\<not> truthy (opt_user ?o) \<and> \<not> opt_currentUser ?o \<and> \<not> truthy (opt_channel ?o)
      \<and> \<not> opt_currentChannel ?o \<and> \<not> truthy (opt_group ?o)"
    by (simp add: no_options_def truthy_def)
  have g: "\<not> startsWith ''group.ghost'' ''@'' \<and> \<not> startsWith ''group.ghost'' ''#''
      \<and> get_permissions example_state ''group.ghost'' = []"
    by code_simp
  show ?thesis
    using perm_no_target_help_and_list_missing
      [of ?o example_session example_state "[''a'']" "''group.ghost''"] f g
    by simp
qed




end
